theory Spec2Isabelle
  imports Main "HOL-Library.Word"
begin

unbundle bit_operations_syntax

section \<open>Machine types and the host's memory representation\<close>

text \<open>
  The program is C for a little-endian host (the comment on \<open>struct tcp_header\<close> says the
  bit-fields are declared in reverse order "due to little endian-ness").  Objects are
  modelled by their values; the bytes that \<open>memcpy\<close>, \<open>checksum\<close> and \<open>sendto\<close> see are
  given by explicit functions from a value to its bytes in memory, least significant
  byte first.
\<close>

type_synonym u8 = "8 word"
type_synonym u16 = "16 word"
type_synonym u32 = "32 word"
type_synonym s32 = "32 word"

text \<open>The two bytes of a \<open>uint16_t\<close> and the four bytes of a \<open>uint32_t\<close> in memory.\<close>

definition bytes_of_u16 :: "u16 \<Rightarrow> u8 list" where
  "bytes_of_u16 x = [ucast x, ucast (drop_bit 8 x)]"

definition bytes_of_u32 :: "u32 \<Rightarrow> u8 list" where
  "bytes_of_u32 x =
     [ucast x, ucast (drop_bit 8 x), ucast (drop_bit 16 x), ucast (drop_bit 24 x)]"

text \<open>Reading a \<open>uint16_t\<close> through a pointer to two bytes in memory: \<open>*ptr\<close>.\<close>

definition load_u16 :: "u8 \<Rightarrow> u8 \<Rightarrow> u16" where
  "load_u16 b0 b1 = ucast b0 OR push_bit 8 (ucast b1)"

text \<open>\<open>htons\<close> and \<open>htonl\<close> of the C library on a little-endian host swap the bytes.\<close>

definition htons :: "u16 \<Rightarrow> u16" where
  "htons x = push_bit 8 x OR drop_bit 8 x"

definition htonl :: "u32 \<Rightarrow> u32" where
  "htonl x = push_bit 24 x OR push_bit 16 (take_bit 8 (drop_bit 8 x))
             OR push_bit 8 (take_bit 8 (drop_bit 16 x)) OR drop_bit 24 x"

section \<open>The three structures and their bytes in memory\<close>

text \<open>
  A bit-field of \<open>n\<close> bits is an \<open>n word\<close>.  On the little-endian host the first declared
  bit-field of a storage unit occupies its least significant bits: \<open>ihl\<close> is the low and
  \<open>version\<close> the high nibble of byte 0 of \<open>struct ip_header\<close>; \<open>flags\<close> (3 bits) and
  \<open>fragment_offset\<close> (13 bits) share the 16-bit unit at offset 6.  Each structure has no
  padding: \<open>sizeof\<close> is 20, 20 and 12.
\<close>

record ip_header =
  ihl :: "4 word"
  version :: "4 word"
  tos :: u8
  total_length :: u16
  identification :: u16
  flags :: "3 word"
  fragment_offset :: "13 word"
  ttl :: u8
  protocol :: u8
  header_checksum :: u16
  source_address :: u32
  destination_address :: u32

record tcp_header =
  source_port :: u16
  destination_port :: u16
  sequence_number :: u32
  acknowledgment_number :: u32
  reserved1 :: "4 word"
  data_offset :: "4 word"
  fin :: "1 word"
  syn :: "1 word"
  rst :: "1 word"
  psh :: "1 word"
  ack :: "1 word"
  urg :: "1 word"
  reserved2 :: "2 word"
  window :: u16
  checksum :: u16
  urgent_pointer :: u16

record pseudo_header =
  source_address :: u32
  destination_address :: u32
  reserved :: u8
  protocol :: u8
  tcp_length :: u16

record internet_socket_address =
  family :: u16
  port :: u16
  address :: u32

definition sizeof_ip_header :: nat where "sizeof_ip_header = 20"
definition sizeof_tcp_header :: nat where "sizeof_tcp_header = 20"
definition sizeof_pseudo_header :: nat where "sizeof_pseudo_header = 12"

definition ip_header_bytes :: "ip_header \<Rightarrow> u8 list" where
  "ip_header_bytes h =
     [ucast (ihl h) OR push_bit 4 (ucast (version h)), tos h]
     @ bytes_of_u16 (total_length h)
     @ bytes_of_u16 (identification h)
     @ bytes_of_u16 (ucast (flags h) OR push_bit 3 (ucast (fragment_offset h)))
     @ [ttl h, ip_header.protocol h]
     @ bytes_of_u16 (header_checksum h)
     @ bytes_of_u32 (ip_header.source_address h)
     @ bytes_of_u32 (ip_header.destination_address h)"

text \<open>
  Byte 13 of \<open>struct tcp_header\<close>: the bit-fields \<open>fin\<close>, \<open>syn\<close>, \<open>rst\<close>, \<open>psh\<close>, \<open>ack\<close>,
  \<open>urg\<close> and \<open>reserved2\<close>, in the order of their declaration from bit 0 upwards.
\<close>

definition tcp_flags_byte :: "tcp_header \<Rightarrow> u8" where
  "tcp_flags_byte h =
     ucast (fin h) OR push_bit 1 (ucast (syn h)) OR push_bit 2 (ucast (rst h))
       OR push_bit 3 (ucast (psh h)) OR push_bit 4 (ucast (ack h))
       OR push_bit 5 (ucast (urg h)) OR push_bit 6 (ucast (reserved2 h))"

definition tcp_header_bytes :: "tcp_header \<Rightarrow> u8 list" where
  "tcp_header_bytes h =
     bytes_of_u16 (source_port h)
     @ bytes_of_u16 (destination_port h)
     @ bytes_of_u32 (sequence_number h)
     @ bytes_of_u32 (acknowledgment_number h)
     @ [ucast (reserved1 h) OR push_bit 4 (ucast (data_offset h)), tcp_flags_byte h]
     @ bytes_of_u16 (window h)
     @ bytes_of_u16 (tcp_header.checksum h)
     @ bytes_of_u16 (urgent_pointer h)"

definition pseudo_header_bytes :: "pseudo_header \<Rightarrow> u8 list" where
  "pseudo_header_bytes h =
     bytes_of_u32 (pseudo_header.source_address h)
     @ bytes_of_u32 (pseudo_header.destination_address h)
     @ [reserved h, pseudo_header.protocol h]
     @ bytes_of_u16 (tcp_length h)"

section \<open>The checksum primitive\<close>

text \<open>
  \<^verbatim>\<open>
  while(num_bytes >1) { sum += *ptr; ptr++; num_bytes -= 2; }
  if(num_bytes == 1) { oddbyte = 0; *((uint8_t *)&oddbyte) = *(uint8_t *)ptr; sum += oddbyte; }
  \<close>
  The loop runs over the bytes of the range that are left; \<open>sum\<close> is an \<open>int32_t\<close>, into
  which each \<open>uint16_t\<close> is promoted before the addition (an overflow of the signed sum
  wraps around here; it needs more than 65536 bytes).  The odd byte is stored into the
  first byte in memory of a zeroed \<open>uint16_t\<close>.
\<close>

fun checksum_loop :: "u8 list \<Rightarrow> s32 \<Rightarrow> s32" where
  "checksum_loop (b0 # b1 # rest) sum0 = checksum_loop rest (sum0 + ucast (load_u16 b0 b1))"
| "checksum_loop [b] sum0 = sum0 + ucast (load_u16 b 0)"
| "checksum_loop [] sum0 = sum0"

text \<open>
  \<^verbatim>\<open>
  sum = (sum >> 16) + (sum & 0xFFFF);
  sum = sum + (sum >> 16);
  answer = ~sum;
  return answer;
  \<close>
  \<open>>>\<close> on the signed \<open>sum\<close> is an arithmetic shift; \<open>answer\<close> is an \<open>int16_t\<close> and the
  function returns it as \<open>uint16_t\<close>: the low 16 bits of \<open>~sum\<close>.  The successive
  values of the variable \<open>sum\<close> are \<open>sum0\<close>, \<open>sum1\<close> and \<open>sum2\<close>.  The argument \<open>p\<close> is
  the memory from the pointer on, of which the function reads the first \<open>num_bytes\<close>
  bytes (none when \<open>num_bytes\<close> is not positive).
\<close>

definition checksum :: "u8 list \<Rightarrow> int \<Rightarrow> u16" where
  "checksum p num_bytes =
     (let sum0 = checksum_loop (take (nat num_bytes) p) 0;
          sum1 = signed_drop_bit 16 sum0 + (sum0 AND 0xFFFF);
          sum2 = sum1 + signed_drop_bit 16 sum1
      in ucast (NOT sum2))"

section \<open>Building the pseudo-header and the TCP checksum\<close>

text \<open>
  \<open>build_pseudo_header\<close> assigns every field of \<open>*ph\<close>.  The sum in the argument of
  \<open>htons\<close> is computed in \<open>size_t\<close> and converted to \<open>uint16_t\<close>.
\<close>

definition build_pseudo_header ::
  "tcp_header \<Rightarrow> ip_header \<Rightarrow> u8 list \<Rightarrow> u16 \<Rightarrow> u8 list \<Rightarrow> u16 \<Rightarrow> pseudo_header" where
  "build_pseudo_header tcph iph options options_length tcp_payload tcp_payload_length =
     \<lparr> pseudo_header.source_address = ip_header.source_address iph,
       pseudo_header.destination_address = ip_header.destination_address iph,
       reserved = 0,
       pseudo_header.protocol = ip_header.protocol iph,
       tcp_length =
         htons (of_nat (sizeof_tcp_header + unat options_length + unat tcp_payload_length)) \<rparr>"

text \<open>
  \<open>build_tcp_checksum\<close> copies the pseudo-header, the TCP header and \<open>data_length\<close> bytes
  of \<open>data\<close> into a buffer of \<open>psize\<close> bytes and stores the checksum of the buffer into
  \<open>tcph->checksum\<close>; the updated header is the result.  \<open>malloc\<close> is taken to succeed.
\<close>

definition build_tcp_checksum ::
  "pseudo_header \<Rightarrow> tcp_header \<Rightarrow> u8 list \<Rightarrow> u16 \<Rightarrow> u8 list \<Rightarrow> u16 \<Rightarrow> tcp_header" where
  "build_tcp_checksum ph tcph options options_length data data_length =
     (let psize = int (sizeof_pseudo_header + sizeof_tcp_header + unat data_length);
          csum_buffer =
            pseudo_header_bytes ph @ tcp_header_bytes tcph @ take (unat data_length) data
      in tcph\<lparr> tcp_header.checksum := checksum csum_buffer psize \<rparr>)"

section \<open>Sending one segment\<close>

definition IPPROTO_TCP :: u8 where "IPPROTO_TCP = 6"
definition AF_INET :: int where "AF_INET = 2"
definition SOCK_RAW :: int where "SOCK_RAW = 3"
definition IPPROTO_RAW :: int where "IPPROTO_RAW = 255"

definition FIN :: u8 where "FIN = 0x01"
definition SYN :: u8 where "SYN = 0x02"
definition RST :: u8 where "RST = 0x04"
definition PSH :: u8 where "PSH = 0x08"
definition ACK :: u8 where "ACK = 0x10"
definition URG :: u8 where "URG = 0x20"

text \<open>
  The IP header of \<open>send_tcp_packet\<close>, from the declaration of \<open>total_length\<close> to the
  assignment of \<open>iph.header_checksum\<close>.  It depends on the payload through its length
  only.  \<open>total_length\<close> is a \<open>uint16_t\<close>: the sum is truncated to 16 bits.  The
  designated initialiser names no \<open>identification\<close>, so that member is zero.
\<close>

definition build_ip_header :: "u32 \<Rightarrow> u32 \<Rightarrow> nat \<Rightarrow> ip_header" where
  "build_ip_header source_address' destination_address' data_length =
     (let total_length' = (of_nat (sizeof_ip_header + sizeof_tcp_header + data_length) :: u16);
          iph = \<lparr> ihl = 5, version = 4, tos = 0,
                  total_length = htons total_length',
                  identification = 0,
                  flags = 0, fragment_offset = 0,
                  ttl = 64, ip_header.protocol = IPPROTO_TCP,
                  header_checksum = 0,
                  ip_header.source_address = source_address',
                  ip_header.destination_address = destination_address' \<rparr>
      in iph\<lparr> header_checksum := checksum (ip_header_bytes iph) (int sizeof_ip_header) \<rparr>)"

text \<open>The initialiser of \<open>tcph\<close>: the arguments are stored as they are given.\<close>

definition init_tcp_header :: "u16 \<Rightarrow> u16 \<Rightarrow> u32 \<Rightarrow> u32 \<Rightarrow> u8 \<Rightarrow> tcp_header" where
  "init_tcp_header source_port' destination_port' sequence_number' acknowledgement_number flags' =
     \<lparr> source_port = source_port',
       destination_port = destination_port',
       sequence_number = sequence_number',
       acknowledgment_number = acknowledgement_number,
       reserved1 = 0,
       data_offset = 5,
       fin = ucast (drop_bit 0 (flags' AND 0x01)),
       syn = ucast (drop_bit 1 (flags' AND 0x02)),
       rst = ucast (drop_bit 2 (flags' AND 0x04)),
       psh = ucast (drop_bit 3 (flags' AND 0x08)),
       ack = ucast (drop_bit 4 (flags' AND 0x10)),
       urg = ucast (drop_bit 5 (flags' AND 0x20)),
       reserved2 = 0,
       window = htons 32768,
       tcp_header.checksum = 0,
       urgent_pointer = 0 \<rparr>"

text \<open>
  The local objects of \<open>send_tcp_packet\<close> when it reaches \<open>sendto\<close>.  The payload \<open>data\<close> is
  the list of its \<open>data_length\<close> bytes (\<open>main\<close> passes \<open>strlen(data)\<close>).  The two builders
  take the length as \<open>uint16_t\<close>; the copy into \<open>PDU\<close> uses the \<open>int\<close>.  A parameter or
  local whose name is also the name of a member carries a prime.
\<close>

record locals =
  the_iph :: ip_header
  the_tcph :: tcp_header
  the_ph :: pseudo_header
  the_PDU :: "u8 list"
  the_total_length :: u16

definition send_tcp_packet_locals ::
  "u32 \<Rightarrow> u16 \<Rightarrow> u32 \<Rightarrow> u16 \<Rightarrow> u32 \<Rightarrow> u32 \<Rightarrow> u8 \<Rightarrow> u8 list \<Rightarrow> locals" where
  "send_tcp_packet_locals source_address' source_port' destination_address' destination_port'
       sequence_number' acknowledgement_number flags' data =
     (let data_length = length data;
          total_length' = (of_nat (sizeof_ip_header + sizeof_tcp_header + data_length) :: u16);
          iph = build_ip_header source_address' destination_address' data_length;
          tcph0 = init_tcp_header source_port' destination_port' sequence_number'
                    acknowledgement_number flags';
          ph = build_pseudo_header tcph0 iph [] 0 data (of_nat data_length);
          tcph = build_tcp_checksum ph tcph0 [] 0 data (of_nat data_length)
      in \<lparr> the_iph = iph, the_tcph = tcph, the_ph = ph,
           the_PDU = ip_header_bytes iph @ tcp_header_bytes tcph @ data,
           the_total_length = total_length' \<rparr>)"

text \<open>
  The operating system and the C library are parameters: \<open>socket\<close> and \<open>sendto\<close> give the
  value the call returns, \<open>inet_addr\<close> and \<open>atoi\<close> are the library's conversions.
  \<open>send_tcp_packet\<close> returns nothing; what it reports is what it writes to \<open>stderr\<close>
  (the output on \<open>stdout\<close> is left out).  After a failed \<open>socket\<close> it still calls \<open>sendto\<close>.
\<close>

datatype message = Usage | Error_creating_socket | Error_sending_packet

record env =
  inet_addr :: "string \<Rightarrow> u32"
  atoi :: "string \<Rightarrow> int"
  socket :: "int \<Rightarrow> int \<Rightarrow> int \<Rightarrow> int"
  sendto :: "int \<Rightarrow> u8 list \<Rightarrow> nat \<Rightarrow> internet_socket_address \<Rightarrow> int"

definition send_tcp_packet ::
  "env \<Rightarrow> u32 \<Rightarrow> u16 \<Rightarrow> u32 \<Rightarrow> u16 \<Rightarrow> u32 \<Rightarrow> u32 \<Rightarrow> u8 \<Rightarrow> u8 list \<Rightarrow> message list" where
  "send_tcp_packet e source_address' source_port' destination_address' destination_port'
       sequence_number' acknowledgement_number flags' data =
     (let l = send_tcp_packet_locals source_address' source_port' destination_address'
                destination_port' sequence_number' acknowledgement_number flags' data;
          sin = \<lparr> family = word_of_int AF_INET, port = destination_port',
                  address = destination_address' \<rparr>;
          sockfd = socket e AF_INET SOCK_RAW IPPROTO_RAW;
          err1 = (if sockfd < 0 then [Error_creating_socket] else []);
          err2 = (if sendto e sockfd (the_PDU l) (unat (the_total_length l)) sin < 0
                  then [Error_sending_packet] else [])
      in err1 @ err2)"

section \<open>The command line\<close>

text \<open>
  \<open>main\<close> gets \<open>argv\<close> as the list of its \<open>argc\<close> strings and returns the exit status
  with what was written to \<open>stderr\<close>.  The \<open>int\<close> results of \<open>atoi\<close> are converted to
  \<open>uint16_t\<close> for \<open>htons\<close>.
\<close>

definition bytes_of_string :: "string \<Rightarrow> u8 list" where
  "bytes_of_string str = map (\<lambda>c. of_nat (of_char c)) str"

definition main :: "env \<Rightarrow> string list \<Rightarrow> int \<times> message list" where
  "main e argv =
     (if length argv \<noteq> 5 \<and> length argv \<noteq> 6 then (1, [Usage])
      else
        let src_ip = argv ! 1;
            source_port' = atoi e (argv ! 2);
            dest_ip = argv ! 3;
            dest_port = atoi e (argv ! 4);
            data = (if length argv = 6 then bytes_of_string (argv ! 5) else [])
        in (0, send_tcp_packet e
                 (inet_addr e src_ip)
                 (htons (word_of_int source_port'))
                 (inet_addr e dest_ip)
                 (htons (word_of_int dest_port))
                 (htonl 0x1000)
                 (htonl 0x0)
                 SYN
                 data))"

text \<open>
  The objects that the call of \<open>send_tcp_packet\<close> in \<open>main\<close> builds, and the destination
  it hands to \<open>sendto\<close>, written out from the arguments of that call.
\<close>

abbreviation main_locals :: "env \<Rightarrow> string list \<Rightarrow> locals" where
  "main_locals e argv \<equiv>
     send_tcp_packet_locals
       (inet_addr e (argv ! 1))
       (htons (word_of_int (atoi e (argv ! 2))))
       (inet_addr e (argv ! 3))
       (htons (word_of_int (atoi e (argv ! 4))))
       (htonl 0x1000)
       (htonl 0x0)
       SYN
       (if length argv = 6 then bytes_of_string (argv ! 5) else [])"

abbreviation main_sin :: "env \<Rightarrow> string list \<Rightarrow> internet_socket_address" where
  "main_sin e argv \<equiv>
     \<lparr> family = word_of_int AF_INET,
       port = htons (word_of_int (atoi e (argv ! 4))),
       address = inet_addr e (argv ! 3) \<rparr>"

text \<open>
  Two environments: one in which \<open>socket\<close> and \<open>sendto\<close> always fail, and one in which
  \<open>socket\<close> returns the descriptor 3 and \<open>sendto\<close> fails on that descriptor only.
\<close>

definition failing_env :: env where
  "failing_env = \<lparr> inet_addr = (\<lambda>_. 0), atoi = (\<lambda>_. 0), socket = (\<lambda>_ _ _. - 1),
                    sendto = (\<lambda>_ _ _ _. - 1) \<rparr>"

definition send_failing_env :: env where
  "send_failing_env = \<lparr> inet_addr = (\<lambda>_. 0), atoi = (\<lambda>_. 0), socket = (\<lambda>_ _ _. 3),
                         sendto = (\<lambda>fd _ _ _. if fd = 3 then - 1 else 0) \<rparr>"

section \<open>The receiver's reading of the bytes\<close>

text \<open>
  What the properties are stated with: big-endian reading of two and four bytes, the
  16-bit big-endian words of a byte sequence with an odd trailing byte padded by a zero
  byte, and the one's-complement sum, in which the carry out of bit 15 is added back
  into bit 0.
\<close>

definition be16 :: "u8 \<Rightarrow> u8 \<Rightarrow> u16" where
  "be16 hi lo = push_bit 8 (ucast hi) OR ucast lo"

definition be32 :: "u8 \<Rightarrow> u8 \<Rightarrow> u8 \<Rightarrow> u8 \<Rightarrow> u32" where
  "be32 b0 b1 b2 b3 =
     push_bit 24 (ucast b0) OR push_bit 16 (ucast b1) OR push_bit 8 (ucast b2) OR ucast b3"

definition read_be16 :: "u8 list \<Rightarrow> nat \<Rightarrow> u16" where
  "read_be16 bs i = be16 (bs ! i) (bs ! (i + 1))"

definition read_be32 :: "u8 list \<Rightarrow> nat \<Rightarrow> u32" where
  "read_be32 bs i = be32 (bs ! i) (bs ! (i + 1)) (bs ! (i + 2)) (bs ! (i + 3))"

fun be_words :: "u8 list \<Rightarrow> u16 list" where
  "be_words (b0 # b1 # rest) = be16 b0 b1 # be_words rest"
| "be_words [b] = [be16 b 0]"
| "be_words [] = []"

definition ones_add16 :: "u16 \<Rightarrow> u16 \<Rightarrow> u16" where
  "ones_add16 x y = (let s = unat x + unat y in of_nat (s mod 65536 + s div 65536))"

definition ones_complement_sum :: "u8 list \<Rightarrow> u16" where
  "ones_complement_sum bs = foldl ones_add16 0 (be_words bs)"

section \<open>Sums of words as natural numbers\<close>

text \<open>
  For the proofs: the plain sums of the little-endian and of the big-endian words of a
  byte sequence, and the representative in \<open>1..65535\<close> of a positive number modulo 65535.
\<close>

fun le_sum :: "u8 list \<Rightarrow> nat" where
  "le_sum (b0 # b1 # rest) = unat b0 + 256 * unat b1 + le_sum rest"
| "le_sum [b] = unat b"
| "le_sum [] = 0"

fun be_sum :: "u8 list \<Rightarrow> nat" where
  "be_sum (b0 # b1 # rest) = 256 * unat b0 + unat b1 + be_sum rest"
| "be_sum [b] = 256 * unat b"
| "be_sum [] = 0"

definition norm1 :: "nat \<Rightarrow> nat" where
  "norm1 n = (if n = 0 then 0 else (n - 1) mod 65535 + 1)"

definition ones_add :: "nat \<Rightarrow> nat \<Rightarrow> nat" where
  "ones_add x y = (x + y) mod 65536 + (x + y) div 65536"

text \<open>The bytes of a header before and after its checksum field.\<close>

definition ip_before_checksum :: "ip_header \<Rightarrow> u8 list" where
  "ip_before_checksum h = take 10 (ip_header_bytes h)"

definition ip_after_checksum :: "ip_header \<Rightarrow> u8 list" where
  "ip_after_checksum h = drop 12 (ip_header_bytes h)"

definition tcp_before_checksum :: "tcp_header \<Rightarrow> u8 list" where
  "tcp_before_checksum h = take 16 (tcp_header_bytes h)"

definition tcp_after_checksum :: "tcp_header \<Rightarrow> u8 list" where
  "tcp_after_checksum h = drop 18 (tcp_header_bytes h)"

section \<open>Words and natural numbers\<close>

lemma unat_u8_less: "unat (a :: u8) < 256"
  using unsigned_less[of a, where 'a=nat] by simp

lemma unat_u16_less: "unat (a :: u16) < 65536"
  using unsigned_less[of a, where 'a=nat] by simp

lemma unat_ucast_u8_u16: "unat (ucast (a :: u8) :: u16) = unat a"
  using unat_u8_less[of a] by (simp add: unsigned_ucast_eq take_bit_eq_mod)

lemma load_u16_plus: "load_u16 a b = ucast a + push_bit 8 (ucast b)"
  unfolding load_u16_def
  by (rule disjunctive_add[symmetric]) (auto simp: bit_simps dest: bit_imp_le_length)

lemma unat_load_u16: "unat (load_u16 a b) = unat a + 256 * unat b"
proof -
  have "unat (push_bit 8 (ucast b :: u16)) = take_bit 16 (push_bit 8 (unat (ucast b :: u16)))"
    by (simp only: unsigned_push_bit_eq len_bit0 len_num1 mult_Suc_right mult_2 mult_1_right, simp)
  then have p: "unat (push_bit 8 (ucast b :: u16)) = 256 * unat b"
    using unat_u8_less[of b]
    by (simp add: unat_ucast_u8_u16 take_bit_eq_mod push_bit_eq_mult)
  have "unat (ucast a :: u16) + unat (push_bit 8 (ucast b :: u16)) < 2 ^ LENGTH(16)"
    using unat_u8_less[of a] unat_u8_less[of b] by (simp add: p unat_ucast_u8_u16)
  then have "unat (load_u16 a b) = unat (ucast a :: u16) + unat (push_bit 8 (ucast b :: u16))"
    unfolding load_u16_plus by (simp only: unat_add_lem)
  then show ?thesis by (simp add: p unat_ucast_u8_u16)
qed

lemma signed_drop_bit_nonneg:
  fixes w :: s32
  assumes "unat w < 2 ^ 31"
  shows "unat (signed_drop_bit 16 w) = unat w div 65536"
proof -
  have "\<not> bit (unat w) 31" using assms by (simp add: bit_iff_odd)
  then have m: "\<not> bit w 31" by (simp add: bit_unsigned_iff)
  have "signed_drop_bit 16 w = drop_bit 16 w"
    by (rule bit_word_eqI) (auto simp: bit_simps m dest: bit_imp_le_length)
  then show ?thesis by (simp add: drop_bit_eq_div unat_div)
qed

lemma unat_and_FFFF: "unat ((w :: s32) AND 0xFFFF) = unat w mod 65536"
proof -
  have "w AND 0xFFFF = take_bit 16 w"
    by (simp add: take_bit_eq_mask mask_eq_exp_minus_1)
  then show ?thesis by (simp add: take_bit_eq_mod unat_mod)
qed

lemma unat_ucast_NOT: "unat (ucast (NOT (w :: s32)) :: u16) = 65535 - unat w mod 65536"
proof -
  have "ucast (NOT w) = NOT (ucast w :: u16)"
    by (rule bit_word_eqI) (auto simp: bit_simps)
  moreover have "unat (NOT (x :: u16)) = 65535 - unat x" for x
  proof -
    have "NOT x = 65535 - x" by (simp add: not_eq_complement)
    moreover have "x \<le> 65535" using unat_u16_less[of x] by (simp add: word_le_nat_alt)
    ultimately show ?thesis by (simp add: unat_sub)
  qed
  ultimately show ?thesis by (simp add: unsigned_ucast_eq take_bit_eq_mod)
qed

lemma unat_ucast_u16_u8: "unat (ucast (c :: 16 word) :: 8 word) = unat c mod 256"
  by (simp add: unsigned_ucast_eq take_bit_eq_mod)

lemma unat_ucast_drop_bit_8: "unat (ucast (drop_bit 8 (c :: 16 word)) :: 8 word) = unat c div 256"
proof -
  have "unat c div 256 < 256" using unat_u16_less[of c] by simp
  then show ?thesis
  by (simp add: unsigned_ucast_eq take_bit_eq_mod drop_bit_eq_div unat_div)
qed

lemma norm1_le: "norm1 n \<le> 65535"
proof -
  have "(n - 1) mod 65535 < 65535" by simp
  then show ?thesis unfolding norm1_def by auto
qed

lemma wrap_once:
  fixes n :: nat
  assumes "m \<le> n" "n < 2 * m" 
  shows "n mod m = n - m" "n div m = 1"
  using assms by (simp_all add: le_mod_geq le_div_geq)

lemma ones_add_norm1: 
  assumes "x \<le> 65535" "y \<le> 65535" shows "ones_add x y = norm1 (x + y)"
proof (cases "x + y < 65536")
  case True
  then show ?thesis unfolding ones_add_def norm1_def by auto
next
  case False
  then have a: "65536 \<le> x + y" "x + y < 2 * 65536" using assms by auto
  have b: "65535 \<le> x + y - 1" "x + y - 1 < 2 * 65535" using assms False by auto
  have "x + y \<noteq> 0" using False by auto
  then show ?thesis unfolding ones_add_def norm1_def wrap_once[OF a] wrap_once[OF b]
    using False by auto
qed

lemma norm1_add: "norm1 (norm1 a + b) = norm1 (a + b)"
proof (cases "a = 0")
  case True then show ?thesis by (simp add: norm1_def)
next
  case False
  then have "norm1 a + b - 1 = (a - 1) mod 65535 + b" by (simp add: norm1_def)
  moreover have "a + b - 1 = (a - 1) + b" using False by simp
  ultimately have "(norm1 a + b - 1) mod 65535 = (a + b - 1) mod 65535"
    by (simp add: mod_add_left_eq)
  moreover have "norm1 a + b \<noteq> 0" "a + b \<noteq> 0" using False by (simp_all add: norm1_def)
  ultimately show ?thesis unfolding norm1_def by simp
qed

lemma norm1_mod: "norm1 n mod 65535 = n mod 65535"
proof (cases "n = 0")
  case True then show ?thesis by (simp add: norm1_def)
next
  case False
  then have "norm1 n = (n - 1) mod 65535 + 1" by (simp add: norm1_def)
  then have "norm1 n mod 65535 = ((n - 1) + 1) mod 65535" by (simp add: mod_add_left_eq del: One_nat_def)
  then show ?thesis using False by simp
qed

lemma norm1_small: "n \<le> 65535 \<Longrightarrow> norm1 n = n"
  by (auto simp: norm1_def)

lemma norm1_add_mult: "0 < n \<Longrightarrow> norm1 (65535 * q + n) = norm1 n"
proof -
  assume a: "0 < n"
  then have "65535 * q + n - 1 = 65535 * q + (n - 1)" by simp
  then have "(65535 * q + n - 1) mod 65535 = (n - 1) mod 65535" by simp
  then show ?thesis using a unfolding norm1_def by simp
qed

lemma fold_C:
  assumes "S < 2 ^ 31"
  shows "(S div 65536 + S mod 65536 + (S div 65536 + S mod 65536) div 65536) mod 65536 = norm1 S"
proof -
  define q r where "q = S div 65536" and "r = S mod 65536"
  have S: "S = 65535 * q + (q + r)" unfolding q_def r_def by simp
  have q: "q < 32768" using assms unfolding q_def by simp
  have r: "r < 65536" unfolding r_def by simp
  show ?thesis
  proof (cases "q + r = 0")
    case True
    then have "S = 0" using S by simp
    then show ?thesis by (simp add: norm1_def)
  next
    case False
    then have n: "norm1 S = norm1 (q + r)" using norm1_add_mult[of "q + r" q] S by simp
    show ?thesis
    proof (cases "q + r < 65536")
      case True
      then show ?thesis using n norm1_small[of "q + r"] by (simp add: q_def r_def)
    next
      case False
      then have a: "65536 \<le> q + r" "q + r < 2 * 65536" using q r by auto
      have b: "65535 \<le> q + r - 1" "q + r - 1 < 2 * 65535" using q r False by auto
      have c: "65536 \<le> q + r + 1" "q + r + 1 < 2 * 65536" using q r False by auto
      have "q + r \<noteq> 0" using False by auto
      then have "norm1 (q + r) = q + r - 65535"
        unfolding norm1_def wrap_once[OF b] using False by auto
      moreover have "(q + r + (q + r) div 65536) mod 65536 = q + r - 65535"
        unfolding wrap_once[OF a] wrap_once[OF c] using False by auto
      ultimately show ?thesis using n by (simp add: q_def r_def)
    qed
  qed
qed

lemma be16_load: "be16 a b = load_u16 b a"
  by (simp add: be16_def load_u16_def or.commute)

lemma unat_be16: "unat (be16 a b) = 256 * unat a + unat b"
  by (simp add: be16_load unat_load_u16)

lemma ucast_load_of_nat: "(ucast (load_u16 a b) :: s32) = of_nat (unat a + 256 * unat b)"
  using unat_load_u16[of a b] by (metis of_nat_unat)

lemma checksum_loop_le_sum: "checksum_loop p s = s + of_nat (le_sum p)"
  by (induction p s rule: checksum_loop.induct) (simp_all add: ucast_load_of_nat)

lemma le_sum_bound: "le_sum p \<le> 65535 * ((length p + 1) div 2)"
proof (induction p rule: le_sum.induct)
  case (1 b0 b1 rest)
  have "unat b0 + 256 * unat b1 \<le> 65535" using unat_u8_less[of b0] unat_u8_less[of b1] by simp
  then show ?case using 1 by simp
next
  case (2 b)
  then show ?case using unat_u8_less[of b] by simp
qed simp

lemma le_sum_less:
  assumes "length p \<le> 65536" shows "le_sum p < 2 ^ 31"
proof -
  have "(length p + 1) div 2 \<le> 32768" using assms by simp
  then have "65535 * ((length p + 1) div 2) \<le> 65535 * 32768" by (rule mult_le_mono2)
  then show ?thesis using le_sum_bound[of p] by simp
qed

lemma unat_checksum:
  assumes "length p \<le> 65536" and n: "n = int (length p)"
  shows "unat (checksum p n) = 65535 - norm1 (le_sum p)"
proof -
  define S where "S = le_sum p"
  have S: "S < 2 ^ 31" unfolding S_def by (rule le_sum_less[OF assms(1)])
  define sum0 :: s32 where "sum0 = checksum_loop p 0"
  define sum1 where "sum1 = signed_drop_bit 16 sum0 + (sum0 AND 0xFFFF)"
  define sum2 where "sum2 = sum1 + signed_drop_bit 16 sum1"
  have u0: "unat sum0 = S"
    using S unfolding sum0_def S_def checksum_loop_le_sum by (simp add: unat_of_nat)
  have a: "unat (signed_drop_bit 16 sum0) = S div 65536"
    using signed_drop_bit_nonneg[of sum0] S u0 by simp
  have b: "unat (sum0 AND 0xFFFF) = S mod 65536"
    using unat_and_FFFF[of sum0] u0 by simp
  have ab: "S div 65536 + S mod 65536 < 98304" using S by simp
  have "unat (signed_drop_bit 16 sum0) + unat (sum0 AND 0xFFFF) < 2 ^ LENGTH(32)"
    using ab unfolding a b by simp
  then have "unat sum1 = unat (signed_drop_bit 16 sum0) + unat (sum0 AND 0xFFFF)"
    unfolding sum1_def by (rule unat_add_lem[THEN iffD1])
  then have u1: "unat sum1 = S div 65536 + S mod 65536"
    by (simp only: a b)
  have c: "unat (signed_drop_bit 16 sum1) = (S div 65536 + S mod 65536) div 65536"
    using signed_drop_bit_nonneg[of sum1] ab u1 by simp
  have "unat sum1 + unat (signed_drop_bit 16 sum1) < 2 ^ LENGTH(32)"
    using ab unfolding u1 c by simp
  then have "unat sum2 = unat sum1 + unat (signed_drop_bit 16 sum1)"
    unfolding sum2_def by (rule unat_add_lem[THEN iffD1])
  then have u2: "unat sum2 = S div 65536 + S mod 65536 + (S div 65536 + S mod 65536) div 65536"
    by (simp only: u1 c)
  have "checksum p n = ucast (NOT sum2)"
    unfolding checksum_def sum2_def sum1_def sum0_def by (simp add: Let_def n)
  then show ?thesis
    unfolding S_def[symmetric] by (simp only: unat_ucast_NOT u2 fold_C[OF S])
qed

lemma unat_ones_add16: "unat (ones_add16 x y) = norm1 (unat x + unat y)"
proof -
  have "ones_add (unat x) (unat y) = norm1 (unat x + unat y)"
    using unat_u16_less[of x] unat_u16_less[of y] by (intro ones_add_norm1) simp_all
  moreover have "norm1 (unat x + unat y) < 65536" using norm1_le[of "unat x + unat y"] by simp
  ultimately show ?thesis
    unfolding ones_add16_def ones_add_def Let_def by (simp add: unat_of_nat)
qed

lemma unat_foldl_ones_add16:
  "unat (foldl ones_add16 a ws) = norm1 (unat a + sum_list (map unat ws))"
proof (induction ws arbitrary: a)
  case Nil
  show ?case using unat_u16_less[of a] by (simp add: norm1_small)
next
  case (Cons w ws)
  show ?case by (simp add: Cons unat_ones_add16 norm1_add add.assoc)
qed

lemma sum_be_words: "sum_list (map unat (be_words bs)) = be_sum bs"
  by (induction bs rule: be_words.induct) (simp_all add: unat_be16)

lemma unat_ones_complement_sum: "unat (ones_complement_sum bs) = norm1 (be_sum bs)"
  by (simp add: ones_complement_sum_def unat_foldl_ones_add16 sum_be_words)

lemma be_sum_swap: "be_sum bs mod 65535 = (256 * le_sum bs) mod 65535"
proof (induction bs rule: be_sum.induct)
  case (1 b0 b1 rest)
  have "256 * (unat b0 + 256 * unat b1 + le_sum rest)
        = 65535 * unat b1 + (256 * unat b0 + unat b1 + 256 * le_sum rest)" by simp
  then have "(256 * le_sum (b0 # b1 # rest)) mod 65535
        = (256 * unat b0 + unat b1 + 256 * le_sum rest) mod 65535"
    by (simp only: le_sum.simps mod_mult_self4)
  also have "\<dots> = (256 * unat b0 + unat b1 + be_sum rest) mod 65535"
    using 1 by (metis mod_add_right_eq)
  finally show ?case by simp
qed simp_all

lemma be_sum_0_iff: "be_sum bs = 0 \<longleftrightarrow> le_sum bs = 0"
  by (induction bs rule: be_sum.induct) simp_all

lemma be_sum_append: "even (length xs) \<Longrightarrow> be_sum (xs @ ys) = be_sum xs + be_sum ys"
  by (induction xs rule: be_sum.induct) simp_all

lemma be_sum_bytes_of_u16: "be_sum (bytes_of_u16 c @ ys) = 256 * (unat c mod 256) + unat c div 256 + be_sum ys"
proof -
  have lo: "unat (ucast c :: u8) = unat c mod 256" by (rule unat_ucast_u16_u8)
  have hi: "unat (ucast (drop_bit 8 c) :: u8) = unat c div 256" by (rule unat_ucast_drop_bit_8)
  show ?thesis
    by (simp only: bytes_of_u16_def append_Cons append_Nil be_sum.simps hi lo)
qed

lemma swap_mod: "(256 * (c mod 256) + c div 256) mod 65535 = (256 * c) mod (65535 :: nat)"
proof -
  define q r where "q = c div 256" and "r = c mod 256"
  have "c = 256 * q + r" unfolding q_def r_def by simp
  then have "256 * c = 65535 * q + (256 * r + q)" by simp
  then show ?thesis unfolding q_def[symmetric] r_def[symmetric] by (simp only: mod_mult_self4)
qed

lemma norm1_multiple: "0 < n \<Longrightarrow> n mod 65535 = 0 \<Longrightarrow> norm1 n = 65535"
proof -
  assume n: "0 < n" "n mod 65535 = 0"
  then obtain k where k: "n = 65535 * k" by auto
  then have "0 < k" using n by simp
  then obtain j where "k = Suc j" by (cases k) auto
  then have "n - 1 = 65535 * j + 65534" using k by simp
  then have "(n - 1) mod 65535 = 65534" by simp
  then show ?thesis using n by (simp add: norm1_def)
qed

lemma checksum_in_place:
  assumes ev: "even (length pre)" and len: "length pre + 2 + length post \<le> 65536"
    and n: "n = int (length pre + 2 + length post)"
  shows "ones_complement_sum (pre @ bytes_of_u16 (checksum (pre @ [0, 0] @ post) n) @ post)
         = 0xFFFF"
proof -
  define S where "S = le_sum (pre @ [0, 0] @ post)"
  define c where "c = unat (checksum (pre @ [0, 0] @ post) n)"
  define c' where "c' = 256 * (c mod 256) + c div 256"
  define T where "T = be_sum (pre @ bytes_of_u16 (checksum (pre @ [0, 0] @ post) n) @ post)"
  have c: "c = 65535 - norm1 S"
    unfolding c_def S_def using len n by (intro unat_checksum) simp_all
  have B0: "be_sum (pre @ [0, 0] @ post) = be_sum pre + be_sum post"
    using ev by (simp add: be_sum_append)
  have T: "T = be_sum (pre @ [0, 0] @ post) + c'"
    unfolding T_def c'_def c_def B0 using ev by (simp add: be_sum_append be_sum_bytes_of_u16)
  have "(S + c) mod 65535 = (norm1 S + c) mod 65535"
    by (metis mod_add_left_eq norm1_mod)
  also have "norm1 S + c = 65535" using c norm1_le[of S] by simp
  finally have Sc: "(S + c) mod 65535 = 0" by simp
  have "T mod 65535 = (be_sum (pre @ [0, 0] @ post) mod 65535 + c' mod 65535) mod 65535"
    unfolding T by (simp add: mod_add_eq)
  also have "\<dots> = ((256 * S) mod 65535 + (256 * c) mod 65535) mod 65535"
    unfolding c'_def swap_mod be_sum_swap S_def ..
  also have "\<dots> = (256 * (S + c)) mod 65535" by (simp add: mod_add_eq distrib_left)
  also have "\<dots> = 0" using Sc by (metis mod_mult_right_eq mult_0_right mod_0)
  finally have T0: "T mod 65535 = 0" .
  have "0 < T"
  proof (cases "S = 0")
    case True
    then have "c = 65535" using c by (simp add: norm1_def)
    then show ?thesis unfolding T c'_def by simp
  next
    case False
    then have "be_sum (pre @ [0, 0] @ post) \<noteq> 0" unfolding S_def by (simp only: be_sum_0_iff not_False_eq_True)
    then show ?thesis unfolding T by simp
  qed
  then have "norm1 T = 65535" using T0 by (rule norm1_multiple)
  then have "unat (ones_complement_sum
                     (pre @ bytes_of_u16 (checksum (pre @ [0, 0] @ post) n) @ post))
             = unat (0xFFFF :: u16)"
    unfolding unat_ones_complement_sum T_def by simp
  then show ?thesis by (simp only: unsigned_word_eqI)
qed

section \<open>A checksum stored in its own field\<close>

lemma length_bytes_of_u16 [simp]: "length (bytes_of_u16 x) = 2"
  by (simp add: bytes_of_u16_def)

lemma length_bytes_of_u32 [simp]: "length (bytes_of_u32 x) = 4"
  by (simp add: bytes_of_u32_def)

lemma bytes_of_u16_0: "bytes_of_u16 0 = [0, 0]"
  by (simp add: bytes_of_u16_def)

lemma length_ip_header_bytes: "length (ip_header_bytes h) = 20"
  by (simp add: ip_header_bytes_def)

lemma length_tcp_header_bytes: "length (tcp_header_bytes h) = 20"
  by (simp add: tcp_header_bytes_def)

lemma length_pseudo_header_bytes: "length (pseudo_header_bytes h) = 12"
  by (simp add: pseudo_header_bytes_def)

lemma ip_header_bytes_split:
  "ip_header_bytes (h\<lparr>header_checksum := c\<rparr>)
   = ip_before_checksum h @ bytes_of_u16 c @ ip_after_checksum h"
  by (simp add: ip_before_checksum_def ip_after_checksum_def ip_header_bytes_def)

lemma tcp_header_bytes_split:
  "tcp_header_bytes (h\<lparr>tcp_header.checksum := c\<rparr>)
   = tcp_before_checksum h @ bytes_of_u16 c @ tcp_after_checksum h"
  by (simp add: tcp_before_checksum_def tcp_after_checksum_def tcp_header_bytes_def
        tcp_flags_byte_def)

lemma ip_header_checksum_verifies:
  assumes "header_checksum h = 0"
  shows "ones_complement_sum
           (ip_header_bytes
              (h\<lparr>header_checksum := checksum (ip_header_bytes h) (int sizeof_ip_header)\<rparr>))
         = 0xFFFF"
proof -
  have "h = h\<lparr>header_checksum := 0\<rparr>" using assms by simp
  then have "ip_header_bytes h = ip_before_checksum h @ bytes_of_u16 0 @ ip_after_checksum h"
    using ip_header_bytes_split[where h=h and c=0] by simp
  then have z: "ip_header_bytes h = ip_before_checksum h @ [0, 0] @ ip_after_checksum h"
    by (simp only: bytes_of_u16_0)
  have l: "length (ip_before_checksum h) = 10" "length (ip_after_checksum h) = 8"
    by (simp_all add: ip_before_checksum_def ip_after_checksum_def length_ip_header_bytes)
  have "ones_complement_sum (ip_before_checksum h
          @ bytes_of_u16 (checksum (ip_before_checksum h @ [0, 0] @ ip_after_checksum h)
                            (int sizeof_ip_header))
          @ ip_after_checksum h) = 0xFFFF"
    by (rule checksum_in_place) (simp_all add: l sizeof_ip_header_def)
  then show ?thesis by (simp only: ip_header_bytes_split flip: z)
qed

lemma tcp_checksum_verifies:
  assumes "tcp_header.checksum h = 0" and "length phb = 12" and "length data \<le> 65504"
  shows "ones_complement_sum
           (phb @ tcp_header_bytes (h\<lparr>tcp_header.checksum :=
                    checksum (phb @ tcp_header_bytes h @ data)
                      (int (sizeof_pseudo_header + sizeof_tcp_header + length data))\<rparr>) @ data)
         = 0xFFFF"
proof -
  define pre where "pre = phb @ tcp_before_checksum h"
  define post where "post = tcp_after_checksum h @ data"
  have "h = h\<lparr>tcp_header.checksum := 0\<rparr>" using assms(1) by simp
  then have "tcp_header_bytes h = tcp_before_checksum h @ bytes_of_u16 0 @ tcp_after_checksum h"
    using tcp_header_bytes_split[where h=h and c=0] by simp
  then have z: "phb @ tcp_header_bytes h @ data = pre @ [0, 0] @ post"
    by (simp add: bytes_of_u16_0 pre_def post_def)
  have l: "length pre = 28" "length post = 2 + length data"
    by (simp_all add: pre_def post_def tcp_before_checksum_def tcp_after_checksum_def
          length_tcp_header_bytes assms(2))
  have "ones_complement_sum
          (pre @ bytes_of_u16 (checksum (pre @ [0, 0] @ post)
                                 (int (sizeof_pseudo_header + sizeof_tcp_header + length data)))
           @ post) = 0xFFFF"
    by (rule checksum_in_place)
       (use assms(3) in \<open>simp_all add: l sizeof_pseudo_header_def sizeof_tcp_header_def\<close>)
  moreover have "phb @ tcp_header_bytes (h\<lparr>tcp_header.checksum := c\<rparr>) @ data
                 = pre @ bytes_of_u16 c @ post" for c
    by (simp add: tcp_header_bytes_split pre_def post_def)
  ultimately show ?thesis by (simp only: z)
qed

section \<open>Byte order and the packed flags\<close>

lemma be16_bytes: "be16 (ucast x) (ucast (drop_bit 8 x)) = htons x"
  unfolding be16_def htons_def
  by (rule bit_word_eqI) (auto simp: bit_simps dest: bit_imp_le_length)

lemma htons_htons: "htons (htons x) = x"
  unfolding htons_def
  by (rule bit_word_eqI) (auto simp: bit_simps dest: bit_imp_le_length)

lemma byte_ranges:
  assumes "n < 32"
  obtains "n < 8" | "8 \<le> n" "n < 16" | "16 \<le> n" "n < 24" | "24 \<le> n" "n < (32::nat)"
  using assms by fastforce

lemma be32_bytes:
  "be32 (ucast x) (ucast (drop_bit 8 x)) (ucast (drop_bit 16 x)) (ucast (drop_bit 24 x)) = htonl x"
  unfolding be32_def htonl_def
proof (rule bit_word_eqI, goal_cases)
  case (1 n)
  then have "n < 32" by simp
  then show ?case
    by (cases n rule: byte_ranges) (auto simp: bit_simps dest: bit_imp_le_length)
qed

lemma htonl_htonl: "htonl (htonl x) = x"
  unfolding htonl_def
proof (rule bit_word_eqI, goal_cases)
  case (1 n)
  then have "n < 32" by simp
  then show ?case
    by (cases n rule: byte_ranges) (auto simp: bit_simps dest: bit_imp_le_length)
qed

lemma flag_fields:
  fixes f :: u8
  shows "(ucast (ucast (drop_bit 0 (f AND 0x01)) :: 1 word) :: u8) = of_bool (bit f 0)"
    and "(ucast (ucast (drop_bit 1 (f AND 0x02)) :: 1 word) :: u8) = of_bool (bit f 1)"
    and "(ucast (ucast (drop_bit 2 (f AND 0x04)) :: 1 word) :: u8) = of_bool (bit f 2)"
    and "(ucast (ucast (drop_bit 3 (f AND 0x08)) :: 1 word) :: u8) = of_bool (bit f 3)"
    and "(ucast (ucast (drop_bit 4 (f AND 0x10)) :: 1 word) :: u8) = of_bool (bit f 4)"
    and "(ucast (ucast (drop_bit 5 (f AND 0x20)) :: 1 word) :: u8) = of_bool (bit f 5)"
  by (rule bit_word_eqI; auto simp: bit_simps eval_nat_numeral)+

lemma six_bits:
  fixes f :: u8
  shows "of_bool (bit f 0) OR push_bit 1 (of_bool (bit f 1)) OR push_bit 2 (of_bool (bit f 2))
         OR push_bit 3 (of_bool (bit f 3)) OR push_bit 4 (of_bool (bit f 4))
         OR push_bit 5 (of_bool (bit f 5)) OR push_bit 6 (ucast (0 :: 2 word)) = f AND mask 6"
proof (rule bit_word_eqI, goal_cases)
  case (1 n)
  then have "n < 8" by simp
  then consider "n = 0" | "n = 1" | "n = 2" | "n = 3" | "n = 4" | "n = 5" | "n = 6" | "n = 7"
    by fastforce
  then show ?case
    by cases (simp_all add: bit_simps)
qed

lemma flags_byte:
  "ucast (ucast (drop_bit 0 (f AND 0x01)) :: 1 word)
     OR push_bit 1 (ucast (ucast (drop_bit 1 (f AND 0x02)) :: 1 word))
     OR push_bit 2 (ucast (ucast (drop_bit 2 (f AND 0x04)) :: 1 word))
     OR push_bit 3 (ucast (ucast (drop_bit 3 (f AND 0x08)) :: 1 word))
     OR push_bit 4 (ucast (ucast (drop_bit 4 (f AND 0x10)) :: 1 word))
     OR push_bit 5 (ucast (ucast (drop_bit 5 (f AND 0x20)) :: 1 word))
     OR push_bit 6 (ucast (0 :: 2 word)) = (f AND 0x3F :: u8)"
proof -
  have m: "(0x3F :: u8) = mask 6" by (simp add: mask_eq_exp_minus_1)
  show ?thesis unfolding m flag_fields by (rule six_bits)
qed

section \<open>The objects built by \<open>send_tcp_packet\<close>\<close>

lemma locals_simps:
  "the_iph (send_tcp_packet_locals sa sp da dp sq ak f data) = build_ip_header sa da (length data)"
  "the_ph (send_tcp_packet_locals sa sp da dp sq ak f data)
     = build_pseudo_header (init_tcp_header sp dp sq ak f)
         (build_ip_header sa da (length data)) [] 0 data (of_nat (length data))"
  "the_tcph (send_tcp_packet_locals sa sp da dp sq ak f data)
     = build_tcp_checksum
         (build_pseudo_header (init_tcp_header sp dp sq ak f)
            (build_ip_header sa da (length data)) [] 0 data (of_nat (length data)))
         (init_tcp_header sp dp sq ak f) [] 0 data (of_nat (length data))"
  "the_PDU (send_tcp_packet_locals sa sp da dp sq ak f data)
     = ip_header_bytes (the_iph (send_tcp_packet_locals sa sp da dp sq ak f data))
       @ tcp_header_bytes (the_tcph (send_tcp_packet_locals sa sp da dp sq ak f data)) @ data"
  "the_total_length (send_tcp_packet_locals sa sp da dp sq ak f data)
     = of_nat (sizeof_ip_header + sizeof_tcp_header + length data)"
  by (simp_all add: send_tcp_packet_locals_def Let_def)

lemma take_20_PDU:
  "take 20 (the_PDU (send_tcp_packet_locals sa sp da dp sq ak f data))
   = ip_header_bytes (build_ip_header sa da (length data))"
  by (simp add: locals_simps length_ip_header_bytes)

lemma drop_20_PDU:
  "drop 20 (the_PDU (send_tcp_packet_locals sa sp da dp sq ak f data))
   = tcp_header_bytes (the_tcph (send_tcp_packet_locals sa sp da dp sq ak f data)) @ data"
  by (simp add: locals_simps(4) length_ip_header_bytes)

lemma build_ip_header_checksum_verifies:
  "ones_complement_sum (ip_header_bytes (build_ip_header sa da n)) = 0xFFFF"
  unfolding build_ip_header_def Let_def
  by (rule ip_header_checksum_verifies) simp

lemma length_be_words: "length (be_words bs) = (length bs + 1) div 2"
  by (induction bs rule: be_words.induct) simp_all

lemma unat_of_nat_u16: "n < 65536 \<Longrightarrow> unat (of_nat n :: u16) = n"
  by (simp add: unat_of_nat)

lemma checksum_loop_append_0:
  "odd (length b) \<Longrightarrow> checksum_loop (b @ [0]) s = checksum_loop b s"
  by (induction b s rule: checksum_loop.induct) simp_all

lemma PDU_nth_ip:
  "i < 20 \<Longrightarrow> the_PDU (send_tcp_packet_locals sa sp da dp sq ak f data) ! i
     = ip_header_bytes (build_ip_header sa da (length data)) ! i"
  by (simp add: locals_simps nth_append length_ip_header_bytes)

lemma PDU_nth_tcp:
  "i < 20 \<Longrightarrow> the_PDU (send_tcp_packet_locals sa sp da dp sq ak f data) ! (20 + i)
     = tcp_header_bytes (the_tcph (send_tcp_packet_locals sa sp da dp sq ak f data)) ! i"
  by (simp add: locals_simps(4) nth_append length_ip_header_bytes length_tcp_header_bytes)

lemma ip_total_length_field:
  "read_be16 (ip_header_bytes h) 2 = htons (total_length h)"
  by (simp add: read_be16_def ip_header_bytes_def bytes_of_u16_def be16_bytes)

lemma pseudo_tcp_length_field:
  "read_be16 (pseudo_header_bytes h) 10 = htons (tcp_length h)"
  by (simp add: read_be16_def pseudo_header_bytes_def bytes_of_u16_def bytes_of_u32_def be16_bytes)

lemma PDU_total_length_field:
  "read_be16 (the_PDU (send_tcp_packet_locals sa sp da dp sq ak f data)) 2
     = htons (total_length (build_ip_header sa da (length data)))"
  by (simp add: read_be16_def PDU_nth_ip flip: ip_total_length_field)

lemma tcp_flags_byte_checksum:
  "tcp_flags_byte (h\<lparr>tcp_header.checksum := c\<rparr>) = tcp_flags_byte h"
  by (simp add: tcp_flags_byte_def)

lemma tcp_flags_byte_init: "tcp_flags_byte (init_tcp_header sp dp sq ak f) = f AND 0x3F"
  unfolding tcp_flags_byte_def init_tcp_header_def
  by (simp only: tcp_header.select_convs flags_byte)

lemma tcp_header_bytes_13: "tcp_header_bytes h ! 13 = tcp_flags_byte h"
  by (simp add: tcp_header_bytes_def bytes_of_u16_def bytes_of_u32_def)

lemma tcp_header_fields:
  "read_be16 (tcp_header_bytes h) 0 = htons (source_port h)"
  "read_be16 (tcp_header_bytes h) 2 = htons (destination_port h)"
  "read_be32 (tcp_header_bytes h) 4 = htonl (sequence_number h)"
  "read_be32 (tcp_header_bytes h) 8 = htonl (acknowledgment_number h)"
  by (simp_all add: read_be16_def read_be32_def tcp_header_bytes_def bytes_of_u16_def
        bytes_of_u32_def be16_bytes be32_bytes)

lemma PDU_nth_tcp':
  "20 \<le> j \<Longrightarrow> j < 40 \<Longrightarrow> the_PDU (send_tcp_packet_locals sa sp da dp sq ak f data) ! j
     = tcp_header_bytes (the_tcph (send_tcp_packet_locals sa sp da dp sq ak f data)) ! (j - 20)"
  by (auto simp: locals_simps(4) nth_append length_ip_header_bytes length_tcp_header_bytes)

lemma PDU_tcp_fields:
  "read_be16 (the_PDU (send_tcp_packet_locals sa sp da dp sq ak f data)) 20
     = read_be16 (tcp_header_bytes (the_tcph (send_tcp_packet_locals sa sp da dp sq ak f data))) 0"
  "read_be16 (the_PDU (send_tcp_packet_locals sa sp da dp sq ak f data)) 22
     = read_be16 (tcp_header_bytes (the_tcph (send_tcp_packet_locals sa sp da dp sq ak f data))) 2"
  "read_be32 (the_PDU (send_tcp_packet_locals sa sp da dp sq ak f data)) 24
     = read_be32 (tcp_header_bytes (the_tcph (send_tcp_packet_locals sa sp da dp sq ak f data))) 4"
  "read_be32 (the_PDU (send_tcp_packet_locals sa sp da dp sq ak f data)) 28
     = read_be32 (tcp_header_bytes (the_tcph (send_tcp_packet_locals sa sp da dp sq ak f data))) 8"
  by (simp_all add: read_be16_def read_be32_def PDU_nth_tcp')

lemma the_tcph_fields:
  "source_port (the_tcph (send_tcp_packet_locals sa sp da dp sq ak f data)) = sp"
  "destination_port (the_tcph (send_tcp_packet_locals sa sp da dp sq ak f data)) = dp"
  "sequence_number (the_tcph (send_tcp_packet_locals sa sp da dp sq ak f data)) = sq"
  "acknowledgment_number (the_tcph (send_tcp_packet_locals sa sp da dp sq ak f data)) = ak"
  by (simp_all add: locals_simps(3) build_tcp_checksum_def Let_def init_tcp_header_def)

lemma PDU_fields_swapped:
  "read_be16 (the_PDU (send_tcp_packet_locals sa sp da dp sq ak f data)) 20 = htons sp"
  "read_be16 (the_PDU (send_tcp_packet_locals sa sp da dp sq ak f data)) 22 = htons dp"
  "read_be32 (the_PDU (send_tcp_packet_locals sa sp da dp sq ak f data)) 24 = htonl sq"
  "read_be32 (the_PDU (send_tcp_packet_locals sa sp da dp sq ak f data)) 28 = htonl ak"
  by (simp_all only: PDU_tcp_fields tcp_header_fields the_tcph_fields)

lemma htons_bytes:
  "(ucast (htons x) :: u8) = ucast (drop_bit 8 x)"
  "(ucast (drop_bit 8 (htons x)) :: u8) = ucast x"
  unfolding htons_def
  by (rule bit_word_eqI; auto simp: bit_simps dest: bit_imp_le_length)+

lemma big_endian_bytes_of_nat:
  assumes "n < 65536"
  shows "bytes_of_u16 (htons (of_nat n)) = [of_nat (n div 256), of_nat (n mod 256)]"
proof -
  have u: "unat (of_nat n :: u16) = n" using assms by (rule unat_of_nat_u16)
  have d: "n div 256 < 256" using assms by simp
  have "unat (ucast (drop_bit 8 (of_nat n :: u16)) :: u8) = unat (of_nat (n div 256) :: u8)"
    using d by (simp only: unat_ucast_drop_bit_8 u) (simp add: unat_of_nat)
  then have hi: "(ucast (drop_bit 8 (of_nat n :: u16)) :: u8) = of_nat (n div 256)"
    by (rule unsigned_word_eqI)
  have "unat (ucast (of_nat n :: u16) :: u8) = unat (of_nat (n mod 256) :: u8)"
    by (simp only: unat_ucast_u16_u8 u) (simp add: unat_of_nat)
  then have lo: "(ucast (of_nat n :: u16) :: u8) = of_nat (n mod 256)"
    by (rule unsigned_word_eqI)
  show ?thesis by (simp only: bytes_of_u16_def htons_bytes hi lo)
qed

lemma the_ph_bytes:
  assumes "length data \<le> 65495"
  shows "pseudo_header_bytes (the_ph (send_tcp_packet_locals sa sp da dp sq ak f data))
         = bytes_of_u32 sa @ bytes_of_u32 da
           @ [0, 6, of_nat ((20 + length data) div 256), of_nat ((20 + length data) mod 256)]"
proof -
  have u: "unat (of_nat (length data) :: u16) = length data"
    using assms by (intro unat_of_nat_u16) simp
  have b: "bytes_of_u16 (htons (of_nat (20 + length data)))
           = [of_nat ((20 + length data) div 256), of_nat ((20 + length data) mod 256)]"
    using assms by (intro big_endian_bytes_of_nat) simp
  have "pseudo_header_bytes (the_ph (send_tcp_packet_locals sa sp da dp sq ak f data))
        = bytes_of_u32 sa @ bytes_of_u32 da @ [0, 6]
          @ bytes_of_u16 (htons (of_nat (20 + length data)))"
    unfolding locals_simps(2) build_pseudo_header_def pseudo_header_bytes_def
    by (simp add: u build_ip_header_def Let_def IPPROTO_TCP_def sizeof_tcp_header_def
          del: of_nat_add)
  then show ?thesis by (simp only: b append_Cons append_Nil)
qed

lemma PDU_address_bytes:
  "take 4 (drop 12 (the_PDU (send_tcp_packet_locals sa sp da dp sq ak f data))) = bytes_of_u32 sa"
  "take 4 (drop 16 (the_PDU (send_tcp_packet_locals sa sp da dp sq ak f data))) = bytes_of_u32 da"
  "the_PDU (send_tcp_packet_locals sa sp da dp sq ak f data) ! 9 = 6"
  by (simp_all add: locals_simps build_ip_header_def Let_def ip_header_bytes_def
        bytes_of_u16_def bytes_of_u32_def IPPROTO_TCP_def)

lemma tcp_checksum_over_the_ph:
  assumes "length data \<le> 65495"
  shows "ones_complement_sum
           (pseudo_header_bytes (the_ph (send_tcp_packet_locals sa sp da dp sq ak f data))
            @ drop 20 (the_PDU (send_tcp_packet_locals sa sp da dp sq ak f data))) = 0xFFFF"
proof -
  have u: "unat (of_nat (length data) :: u16) = length data"
    using assms by (intro unat_of_nat_u16) simp
  have t: "take (length data) data = data"
    by simp
  have c: "tcp_header.checksum (init_tcp_header sp dp sq ak f) = 0"
    by (simp add: init_tcp_header_def)
  show ?thesis
    unfolding drop_20_PDU locals_simps(2,3) build_tcp_checksum_def Let_def u t
    by (rule tcp_checksum_verifies) (use assms c in \<open>simp_all add: length_pseudo_header_bytes\<close>)
qed

section \<open>The TCP checksum verifies\<close>

text \<open>
  C1: for every call of \<open>send_tcp_packet\<close> with a payload of at most 65495 bytes, the
  one's-complement sum of the 16-bit big-endian words of pseudo-header, TCP header (with
  the computed checksum in its field) and payload, an odd last byte padded with a zero
  byte for the sum only, is \<open>0xFFFF\<close>.  The pseudo-header is written out: the four bytes
  of the source address, the four of the destination address, a zero byte, the protocol
  6 and the TCP length \<open>20 + L\<close> as two bytes, high byte first.  The TCP header and the
  payload are the bytes of the PDU after the 20 bytes of the IP header.  The address
  bytes and the protocol are those of the IP header in the PDU (offsets 12, 16 and 9),
  and the pseudo-header that the code builds for its checksum has exactly these bytes.
\<close>

theorem tcp_checksum_self_verifies:
  assumes "length data \<le> 65495"
  shows "ones_complement_sum
           (bytes_of_u32 sa @ bytes_of_u32 da
            @ [0, 6, of_nat ((20 + length data) div 256), of_nat ((20 + length data) mod 256)]
            @ drop 20 (the_PDU (send_tcp_packet_locals sa sp da dp sq ak f data))) = 0xFFFF
       \<and> take 4 (drop 12 (the_PDU (send_tcp_packet_locals sa sp da dp sq ak f data)))
           = bytes_of_u32 sa
       \<and> take 4 (drop 16 (the_PDU (send_tcp_packet_locals sa sp da dp sq ak f data)))
           = bytes_of_u32 da
       \<and> the_PDU (send_tcp_packet_locals sa sp da dp sq ak f data) ! 9 = 6
       \<and> pseudo_header_bytes (the_ph (send_tcp_packet_locals sa sp da dp sq ak f data))
           = bytes_of_u32 sa @ bytes_of_u32 da
             @ [0, 6, of_nat ((20 + length data) div 256), of_nat ((20 + length data) mod 256)]"
proof -
  have "ones_complement_sum
          ((bytes_of_u32 sa @ bytes_of_u32 da
            @ [0, 6, of_nat ((20 + length data) div 256), of_nat ((20 + length data) mod 256)])
           @ drop 20 (the_PDU (send_tcp_packet_locals sa sp da dp sq ak f data))) = 0xFFFF"
    using tcp_checksum_over_the_ph [OF assms, of sa sp da dp sq ak f]
    by (simp only: the_ph_bytes [OF assms])
  then have s: "ones_complement_sum
           (bytes_of_u32 sa @ bytes_of_u32 da
            @ [0, 6, of_nat ((20 + length data) div 256), of_nat ((20 + length data) mod 256)]
            @ drop 20 (the_PDU (send_tcp_packet_locals sa sp da dp sq ak f data))) = 0xFFFF"
    by (simp only: append_assoc)
  show ?thesis
    by (simp only: s PDU_address_bytes the_ph_bytes [OF assms] simp_thms)
qed

theorem tcp_checksum_self_verifies_witness:
  "length [0x41 :: u8] \<le> 65495
   \<and> ones_complement_sum
         (bytes_of_u32 0x0100000A @ bytes_of_u32 0x0200000A
          @ [0, 6, of_nat ((20 + length [0x41 :: u8]) div 256),
             of_nat ((20 + length [0x41 :: u8]) mod 256)]
          @ drop 20
              (the_PDU (send_tcp_packet_locals 0x0100000A (htons 12345) 0x0200000A (htons 80)
                          (htonl 0) (htonl 1) 0x12 [0x41]))) = 0xFFFF"
proof -
  have h: "length [0x41 :: u8] \<le> 65495" by simp
  show ?thesis
    using h tcp_checksum_self_verifies [OF h, where sa = "0x0100000A" and sp = "htons 12345"
        and da = "0x0200000A" and dp = "htons 80" and sq = "htonl 0" and ak = "htonl 1"
        and f = "0x12"]
    by blast
qed

section \<open>The IP checksum verifies\<close>

text \<open>
  C2: for every source address, destination address and payload, the 20 bytes of the IP
  header that \<open>send_tcp_packet\<close> puts in front of the PDU are ten 16-bit big-endian
  words whose one's-complement sum, with the computed checksum in the \<open>header_checksum\<close>
  field, is \<open>0xFFFF\<close>.
\<close>

theorem ip_checksum_self_verifies:
  "length (be_words (take 20 (the_PDU (send_tcp_packet_locals sa sp da dp sq ak f data)))) = 10
   \<and> ones_complement_sum (take 20 (the_PDU (send_tcp_packet_locals sa sp da dp sq ak f data)))
       = 0xFFFF"
  by (simp only: take_20_PDU build_ip_header_checksum_verifies length_be_words
        length_ip_header_bytes) simp

section \<open>Padding of an odd range\<close>

text \<open>
  C7: for every byte sequence \<open>b\<close> of odd length, \<open>checksum\<close> of \<open>b\<close> equals
  \<open>checksum\<close> of \<open>b\<close> with one zero byte appended (each called with the length of
  its range).
\<close>

theorem checksum_odd_padding:
  assumes "odd (length b)"
  shows "checksum b (int (length b)) = checksum (b @ [0]) (int (length (b @ [0])))"
  unfolding checksum_def by (simp only: nat_int take_all order_refl checksum_loop_append_0 [OF assms])

theorem checksum_odd_padding_witness:
  "odd (length [0 :: u8, 0, 0])
   \<and> checksum [0 :: u8, 0, 0] (int (length [0 :: u8, 0, 0]))
       = checksum ([0, 0, 0] @ [0]) (int (length ([0 :: u8, 0, 0] @ [0])))"
proof -
  have h: "odd (length [0 :: u8, 0, 0])" by simp
  show ?thesis using h checksum_odd_padding [OF h] by (intro conjI)
qed

section \<open>The checksum of an empty range\<close>

text \<open>
  C8: the checksum primitive applied to an empty byte range (\<open>num_bytes = 0\<close>, at any
  pointer) returns \<open>0xFFFF\<close>.
\<close>

theorem checksum_empty: "checksum p 0 = 0xFFFF"
proof -
  have "checksum p 0 = checksum [] 0"
    by (simp add: checksum_def)
  also have "\<dots> = 0xFFFF"
    by code_simp
  finally show ?thesis .
qed

section \<open>The identification field\<close>

text \<open>
  C10: for every call of \<open>send_tcp_packet\<close> the \<open>identification\<close> member of the IP header
  is 0, and the two identification bytes of the PDU (offsets 4 and 5) are \<open>00 00\<close>.
\<close>

theorem identification_zero:
  "identification (the_iph (send_tcp_packet_locals sa sp da dp sq ak f data)) = 0
   \<and> the_PDU (send_tcp_packet_locals sa sp da dp sq ak f data) ! 4 = 0
   \<and> the_PDU (send_tcp_packet_locals sa sp da dp sq ak f data) ! 5 = 0"
  by (simp add: locals_simps build_ip_header_def Let_def ip_header_bytes_def bytes_of_u16_def)

section \<open>Byte order of the port and sequence arguments\<close>

text \<open>
  C3 as stated: \<open>send_tcp_packet\<close> takes source port, destination port, sequence number
  and acknowledgement number as host-order values and byte-swaps them, so that reading
  the fields of the PDU as big-endian integers gives the arguments back.  It fails:
  called with source port 12345 (\<open>0x3039\<close>), the PDU holds the bytes \<open>39 30\<close> at offsets
  20 and 21, which read 14640 big-endian.
\<close>

theorem arguments_not_swapped_counterexample:
  "read_be16 (the_PDU (send_tcp_packet_locals 0x0100000A 12345 0x0200000A 80 0x1000 0 SYN [])) 20
     = 14640
   \<and> read_be16 (the_PDU (send_tcp_packet_locals 0x0100000A 12345 0x0200000A 80 0x1000 0 SYN []))
       20 \<noteq> 12345"
  by (simp add: PDU_fields_swapped(1) htons_def)

text \<open>
  C3, amended: \<open>send_tcp_packet\<close> stores the four arguments as they are given, without
  a byte swap, so on the little-endian host the fields of the PDU read big-endian are
  the byte-swapped arguments (\<open>htons\<close>, \<open>htonl\<close>); the values a caller has in mind are
  recovered exactly when the caller passes them through \<open>htons\<close> and \<open>htonl\<close>, as \<open>main\<close>
  does.
\<close>

theorem arguments_stored_as_given:
  "read_be16 (the_PDU (send_tcp_packet_locals sa sp da dp sq ak f data)) 20 = htons sp
   \<and> read_be16 (the_PDU (send_tcp_packet_locals sa sp da dp sq ak f data)) 22 = htons dp
   \<and> read_be32 (the_PDU (send_tcp_packet_locals sa sp da dp sq ak f data)) 24 = htonl sq
   \<and> read_be32 (the_PDU (send_tcp_packet_locals sa sp da dp sq ak f data)) 28 = htonl ak
   \<and> read_be16 (the_PDU (send_tcp_packet_locals sa (htons sp) da (htons dp) (htonl sq)
                             (htonl ak) f data)) 20 = sp
   \<and> read_be16 (the_PDU (send_tcp_packet_locals sa (htons sp) da (htons dp) (htonl sq)
                             (htonl ak) f data)) 22 = dp
   \<and> read_be32 (the_PDU (send_tcp_packet_locals sa (htons sp) da (htons dp) (htonl sq)
                             (htonl ak) f data)) 24 = sq
   \<and> read_be32 (the_PDU (send_tcp_packet_locals sa (htons sp) da (htons dp) (htonl sq)
                             (htonl ak) f data)) 28 = ak"
  by (simp only: PDU_fields_swapped htons_htons htonl_htonl simp_thms)

section \<open>Payloads that do not fit the total length\<close>

text \<open>
  C4 as stated: the IP header builder rejects every payload longer than 65515 bytes with
  a payload-too-large error.  It fails: for a payload of 65516 bytes the builder returns
  a header like for any other, with \<open>00 14\<close> (20, that is 65556 modulo 65536) in
  the total-length bytes.
\<close>

theorem no_payload_rejection_counterexample:
  "ip_header_bytes (build_ip_header 0x0100000A 0x0200000A 65516)
     = [0x45, 0x00, 0x00, 0x14, 0x00, 0x00, 0x00, 0x00, 0x40, 0x06, 0x66, 0xE2,
        0x0A, 0x00, 0x00, 0x01, 0x0A, 0x00, 0x00, 0x02]"
  by (simp add: build_ip_header_def Let_def ip_header_bytes_def bytes_of_u16_def
        bytes_of_u32_def htons_def checksum_def load_u16_def sizeof_ip_header_def
        sizeof_tcp_header_def IPPROTO_TCP_def)

text \<open>
  C4, amended: the IP header builder has no failure case.  For every payload length \<open>L\<close>
  it yields a 20-byte header whose total-length field, read big-endian, is
  \<open>(20 + 20 + L) mod 65536\<close>: 65535 for \<open>L = 65495\<close>, and 0 for \<open>L = 65496\<close>.
\<close>

theorem ip_header_total_length_wraps:
  "length (ip_header_bytes (build_ip_header sa da L)) = 20
   \<and> unat (read_be16 (ip_header_bytes (build_ip_header sa da L)) 2) = (20 + 20 + L) mod 65536"
proof -
  have a: "total_length (build_ip_header sa da L) = htons (of_nat (20 + 20 + L))"
    by (simp add: build_ip_header_def Let_def sizeof_ip_header_def sizeof_tcp_header_def)
  have b: "unat (of_nat (20 + 20 + L) :: u16) = (20 + 20 + L) mod 65536"
    by (simp only: unat_of_nat) simp
  show ?thesis
    by (simp only: length_ip_header_bytes ip_total_length_field a htons_htons b simp_thms)
qed

section \<open>The two length fields\<close>

text \<open>
  C5: for every payload of length \<open>L\<close> at most 65495, the total-length field of the
  emitted IP header (bytes 2 and 3 of the PDU) is \<open>20 + 20 + L\<close> and the TCP-length
  field of the pseudo-header (its bytes 10 and 11) is \<open>20 + L\<close>, both read big-endian,
  that is in network byte order.
\<close>

theorem length_consistency:
  assumes "length data \<le> 65495"
  shows "unat (read_be16 (the_PDU (send_tcp_packet_locals sa sp da dp sq ak f data)) 2)
           = 20 + 20 + length data
       \<and> unat (read_be16 (pseudo_header_bytes
                   (the_ph (send_tcp_packet_locals sa sp da dp sq ak f data))) 10)
           = 20 + length data"
proof -
  have a: "total_length (build_ip_header sa da (length data))
             = htons (of_nat (20 + 20 + length data))"
    by (simp add: build_ip_header_def Let_def sizeof_ip_header_def sizeof_tcp_header_def)
  have b: "tcp_length (the_ph (send_tcp_packet_locals sa sp da dp sq ak f data))
             = htons (of_nat (20 + length data))"
    using assms
    by (simp add: locals_simps build_pseudo_header_def sizeof_tcp_header_def unat_of_nat_u16)
  have c: "unat (of_nat (20 + 20 + length data) :: u16) = 20 + 20 + length data"
    using assms by (intro unat_of_nat_u16) simp
  have d: "unat (of_nat (20 + length data) :: u16) = 20 + length data"
    using assms by (intro unat_of_nat_u16) simp
  show ?thesis
    by (simp only: PDU_total_length_field pseudo_tcp_length_field a b htons_htons c d simp_thms)
qed

theorem length_consistency_witness:
  "length [0x41 :: u8] \<le> 65495
   \<and> unat (read_be16 (the_PDU (send_tcp_packet_locals 0x0100000A (htons 12345) 0x0200000A
                                   (htons 80) (htonl 0) (htonl 1) 0x12 [0x41])) 2)
       = 20 + 20 + length [0x41 :: u8]
   \<and> unat (read_be16 (pseudo_header_bytes
               (the_ph (send_tcp_packet_locals 0x0100000A (htons 12345) 0x0200000A
                          (htons 80) (htonl 0) (htonl 1) 0x12 [0x41]))) 10)
       = 20 + length [0x41 :: u8]"
proof -
  have h: "length [0x41 :: u8] \<le> 65495" by simp
  show ?thesis using h length_consistency [OF h] by (intro conjI) blast+
qed

section \<open>The flags byte\<close>

text \<open>
  C6: for every flags byte \<open>f\<close> passed to \<open>send_tcp_packet\<close>, byte 13 of the emitted TCP
  header (byte 33 of the PDU) has its low six bits equal to the low six bits of \<open>f\<close>
  and its high two bits 0: it is \<open>f AND 0x3F\<close>, whatever the high two bits of \<open>f\<close> are.
\<close>

theorem flags_byte_13:
  "tcp_header_bytes (the_tcph (send_tcp_packet_locals sa sp da dp sq ak f data)) ! 13
     = f AND 0x3F
   \<and> the_PDU (send_tcp_packet_locals sa sp da dp sq ak f data) ! 33 = f AND 0x3F
   \<and> take_bit 6 (the_PDU (send_tcp_packet_locals sa sp da dp sq ak f data) ! 33) = take_bit 6 f
   \<and> drop_bit 6 (the_PDU (send_tcp_packet_locals sa sp da dp sq ak f data) ! 33) = 0"
proof -
  have a: "tcp_header_bytes (the_tcph (send_tcp_packet_locals sa sp da dp sq ak f data)) ! 13
             = f AND 0x3F"
    by (simp only: tcp_header_bytes_13 locals_simps(3) build_tcp_checksum_def Let_def
          tcp_flags_byte_checksum tcp_flags_byte_init)
  have "the_PDU (send_tcp_packet_locals sa sp da dp sq ak f data) ! (20 + 13)
             = tcp_header_bytes (the_tcph (send_tcp_packet_locals sa sp da dp sq ak f data)) ! 13"
    by (rule PDU_nth_tcp) simp
  then have b: "the_PDU (send_tcp_packet_locals sa sp da dp sq ak f data) ! 33 = f AND 0x3F"
    using a by simp
  have m: "(0x3F :: u8) = mask 6" by (simp add: mask_eq_exp_minus_1)
  have c: "take_bit 6 (f AND 0x3F) = take_bit 6 f" "drop_bit 6 (f AND 0x3F) = 0"
    unfolding m by (rule bit_word_eqI; auto simp: bit_simps)+
  show ?thesis by (simp only: a b c simp_thms)
qed

section \<open>The exit status\<close>

text \<open>
  C9 as stated: the program exits with status 0 when the send succeeds and with status
  1 on argument failure or on send failure.  It fails: with five arguments and a
  \<open>sendto\<close> that returns -1, \<open>main\<close> writes the error to \<open>stderr\<close> and returns 0.
\<close>

theorem exit_status_on_send_failure_counterexample:
  "main \<lparr> inet_addr = (\<lambda>_. 0), atoi = (\<lambda>_. 0), socket = (\<lambda>_ _ _. 3),
          sendto = (\<lambda>_ _ _ _. - 1) \<rparr>
        [''send_tcp'', ''10.0.0.1'', ''12345'', ''10.0.0.2'', ''80'']
   = (0, [Error_sending_packet])"
  by (simp add: main_def send_tcp_packet_def Let_def)

text \<open>
  C9, amended: the exit status is 1 exactly when the argument count is neither 5 nor 6
  (then only the usage line is written), and 0 in every other case, whatever \<open>socket\<close>
  and \<open>sendto\<close> return.  With 5 or 6 arguments, what is written to \<open>stderr\<close> is the
  socket error when the call of \<open>socket\<close> returns a negative value, followed by the send
  error when the call of \<open>sendto\<close> that the run makes (on the descriptor \<open>socket\<close>
  returned, with the PDU, its 16-bit length and the destination) returns a negative
  value, and nothing else: a failure is reported on \<open>stderr\<close> only.
\<close>

theorem main_exit_status:
  "fst (main e argv) = (if length argv = 5 \<or> length argv = 6 then 0 else 1)
   \<and> (length argv \<noteq> 5 \<and> length argv \<noteq> 6 \<longrightarrow> snd (main e argv) = [Usage])
   \<and> (length argv = 5 \<or> length argv = 6 \<longrightarrow>
        snd (main e argv)
        = (if socket e AF_INET SOCK_RAW IPPROTO_RAW < 0 then [Error_creating_socket] else [])
          @ (if sendto e (socket e AF_INET SOCK_RAW IPPROTO_RAW)
                  (the_PDU (main_locals e argv))
                  (unat (the_total_length (main_locals e argv)))
                  (main_sin e argv) < 0
             then [Error_sending_packet] else []))"
  by (auto simp: main_def send_tcp_packet_def Let_def)

theorem main_exit_status_witness:
  "(length [''send_tcp'', ''10.0.0.1'', ''12345'', ''10.0.0.2'', ''80''] = 5
      \<or> length [''send_tcp'', ''10.0.0.1'', ''12345'', ''10.0.0.2'', ''80''] = 6)
   \<and> main failing_env [''send_tcp'', ''10.0.0.1'', ''12345'', ''10.0.0.2'', ''80'']
       = (0, [Error_creating_socket, Error_sending_packet])
   \<and> main send_failing_env [''send_tcp'', ''10.0.0.1'', ''12345'', ''10.0.0.2'', ''80'']
       = (0, [Error_sending_packet])
   \<and> length [''send_tcp''] \<noteq> 5 \<and> length [''send_tcp''] \<noteq> 6
   \<and> main failing_env [''send_tcp''] = (1, [Usage])"
proof -
  have h: "length [''send_tcp'', ''10.0.0.1'', ''12345'', ''10.0.0.2'', ''80''] = 5
      \<or> length [''send_tcp'', ''10.0.0.1'', ''12345'', ''10.0.0.2'', ''80''] = 6"
    by simp
  have k: "length [''send_tcp''] \<noteq> 5 \<and> length [''send_tcp''] \<noteq> 6"
    by simp
  have a: "main failing_env [''send_tcp'', ''10.0.0.1'', ''12345'', ''10.0.0.2'', ''80'']
           = (0, [Error_creating_socket, Error_sending_packet])"
    using h main_exit_status [of failing_env
        "[''send_tcp'', ''10.0.0.1'', ''12345'', ''10.0.0.2'', ''80'']"]
    by (simp add: prod_eq_iff failing_env_def)
  have b: "main send_failing_env [''send_tcp'', ''10.0.0.1'', ''12345'', ''10.0.0.2'', ''80'']
           = (0, [Error_sending_packet])"
    using h main_exit_status [of send_failing_env
        "[''send_tcp'', ''10.0.0.1'', ''12345'', ''10.0.0.2'', ''80'']"]
    by (simp add: prod_eq_iff send_failing_env_def)
  have c: "main failing_env [''send_tcp''] = (1, [Usage])"
    using k main_exit_status [of failing_env "[''send_tcp'']"]
    by (simp add: prod_eq_iff)
  show ?thesis
    using h k a b c by blast
qed

end
